theory Spec2Isabelle
  imports Complex_Main "HOL-Library.AList"
begin

section \<open>Data model (src/types.ts)\<close>

text \<open>
  A TypeScript \<open>number\<close> is modelled as a real: finite values with exact arithmetic.
  \<open>NaN\<close>, the infinities and the rounding of IEEE doubles are outside the model.
\<close>

record Rect =
  x :: real
  y :: real
  width :: real
  height :: real

section \<open>Rectangle geometry (src/utils/geometry.ts)\<close>

text \<open>
  \<open>clampRectToImage\<close>: the three assignments of the source in their order. The
  position is computed from the capped size, before the size is raised to 1.
\<close>

definition clampRectToImage :: "Rect \<Rightarrow> real \<Rightarrow> real \<Rightarrow> Rect" where
  "clampRectToImage rect imgWidth imgHeight =
     (let width0 = min (width rect) imgWidth;
          height0 = min (height rect) imgHeight;
          x0 = max 0 (min (x rect) (imgWidth - width0));
          y0 = max 0 (min (y rect) (imgHeight - height0));
          width1 = max 1 width0;
          height1 = max 1 height0
      in \<lparr>x = x0, y = y0, width = width1, height = height1\<rparr>)"

text \<open>\<open>defaultRect\<close>: \<open>Math.floor\<close> of the scaled dimensions.\<close>

definition defaultRect :: "real \<Rightarrow> real \<Rightarrow> Rect" where
  "defaultRect imgWidth imgHeight =
     \<lparr>x = of_int \<lfloor>imgWidth * 0.25\<rfloor>,
      y = of_int \<lfloor>imgHeight * 0.25\<rfloor>,
      width = of_int \<lfloor>imgWidth * 0.5\<rfloor>,
      height = of_int \<lfloor>imgHeight * 0.5\<rfloor>\<rparr>"

text \<open>
  The reference definition of the clamp, following the three stages of the
  specification: cap the size to the image, cap the position into the interval from 0
  to the dimension minus the capped size, raise the size to at least 1.
\<close>

definition cap_into :: "real \<Rightarrow> real \<Rightarrow> real \<Rightarrow> real" where
  "cap_into lo hi v = (if v < lo then lo else if hi < v then hi else v)"

definition spec_stage_size :: "Rect \<Rightarrow> real \<Rightarrow> real \<Rightarrow> Rect" where
  "spec_stage_size rect imgWidth imgHeight =
     rect\<lparr>width := min (width rect) imgWidth, height := min (height rect) imgHeight\<rparr>"

definition spec_stage_position :: "Rect \<Rightarrow> real \<Rightarrow> real \<Rightarrow> Rect" where
  "spec_stage_position rect imgWidth imgHeight =
     rect\<lparr>x := cap_into 0 (imgWidth - width rect) (x rect),
          y := cap_into 0 (imgHeight - height rect) (y rect)\<rparr>"

definition spec_stage_floor :: "Rect \<Rightarrow> Rect" where
  "spec_stage_floor rect =
     rect\<lparr>width := (if width rect < 1 then 1 else width rect),
          height := (if height rect < 1 then 1 else height rect)\<rparr>"

definition clamp_three_stage :: "Rect \<Rightarrow> real \<Rightarrow> real \<Rightarrow> Rect" where
  "clamp_three_stage rect imgWidth imgHeight =
     spec_stage_floor
       (spec_stage_position (spec_stage_size rect imgWidth imgHeight) imgWidth imgHeight)"

text \<open>The invariant of the data model: the rectangle lies inside the image and is
  at least one pixel in each direction.\<close>

definition rect_within :: "Rect \<Rightarrow> real \<Rightarrow> real \<Rightarrow> bool" where
  "rect_within r imgWidth imgHeight \<longleftrightarrow>
     0 \<le> x r \<and> 0 \<le> y r \<and> x r + width r \<le> imgWidth \<and> y r + height r \<le> imgHeight
     \<and> 1 \<le> width r \<and> 1 \<le> height r"

section \<open>Editing the crop box (components/BoundingBoxOverlay)\<close>

text \<open>
  \<open>handlePointerMove\<close>: the drag modes are the strings \<open>move\<close>, \<open>nw\<close>, \<open>ne\<close>,
  \<open>sw\<close>, \<open>se\<close>, or \<open>null\<close> when nothing is dragged. \<open>deltaX\<close> and \<open>deltaY\<close> are the
  pointer offsets already divided by the display scale. Outside \<open>move\<close>, the tests
  \<open>dragMode.includes('w')\<close> and so on pick the sides that follow the pointer. The result
  is the rectangle handed to \<open>onChange\<close>.
\<close>

datatype DragMode = Move | NW | NE | SW | SE

definition includesW :: "DragMode \<Rightarrow> bool" where
  "includesW m \<longleftrightarrow> m = NW \<or> m = SW"

definition includesE :: "DragMode \<Rightarrow> bool" where
  "includesE m \<longleftrightarrow> m = NE \<or> m = SE"

definition includesN :: "DragMode \<Rightarrow> bool" where
  "includesN m \<longleftrightarrow> m = NW \<or> m = NE"

definition includesS :: "DragMode \<Rightarrow> bool" where
  "includesS m \<longleftrightarrow> m = SW \<or> m = SE"

definition handlePointerMove ::
  "DragMode option \<Rightarrow> Rect \<Rightarrow> real \<Rightarrow> real \<Rightarrow> real \<Rightarrow> real \<Rightarrow> Rect option" where
  "handlePointerMove dragMode startRect deltaX deltaY imageWidth imageHeight =
     (case dragMode of
        None \<Rightarrow> None
      | Some mode \<Rightarrow>
          (let newRect =
                 (if mode = Move
                  then startRect\<lparr>x := x startRect + deltaX, y := y startRect + deltaY\<rparr>
                  else
                    (let r1 = (if includesW mode
                               then startRect\<lparr>x := x startRect + deltaX,
                                              width := width startRect - deltaX\<rparr>
                               else startRect);
                         r2 = (if includesE mode then r1\<lparr>width := width r1 + deltaX\<rparr> else r1);
                         r3 = (if includesN mode
                               then r2\<lparr>y := y r2 + deltaY, height := height r2 - deltaY\<rparr>
                               else r2)
                     in if includesS mode then r3\<lparr>height := height r3 + deltaY\<rparr> else r3));
               flippedW =
                 (if width newRect < 0
                  then newRect\<lparr>x := x newRect + width newRect, width := \<bar>width newRect\<bar>\<rparr>
                  else newRect);
               flipped =
                 (if height flippedW < 0
                  then flippedW\<lparr>y := y flippedW + height flippedW,
                                 height := \<bar>height flippedW\<bar>\<rparr>
                  else flippedW)
           in Some (clampRectToImage flipped imageWidth imageHeight)))"

text \<open>
  \<open>handleManualSubmit\<close>: \<open>w\<close> and \<open>h\<close> are the results of \<open>parseInt\<close>, \<open>None\<close> for
  \<open>NaN\<close>. The size typed in is raised to 1 before the rectangle is clamped.
\<close>

definition handleManualSubmit ::
  "Rect \<Rightarrow> int option \<Rightarrow> int option \<Rightarrow> real \<Rightarrow> real \<Rightarrow> Rect option" where
  "handleManualSubmit rect0 w h imageWidth imageHeight =
     (case (w, h) of
        (Some wv, Some hv) \<Rightarrow>
          Some (clampRectToImage
                  (rect0\<lparr>width := max 1 (of_int wv), height := max 1 (of_int hv)\<rparr>)
                  imageWidth imageHeight)
      | _ \<Rightarrow> None)"

section \<open>Folders and image entries (src/types.ts)\<close>

text \<open>
  File handles and \<open>File\<close> objects are opaque references (natural numbers); an
  optional field of the source is an \<open>option\<close>. The fields \<open>id\<close> of \<open>ImageFile\<close>
  and \<open>id\<close>, \<open>name\<close>, \<open>handle\<close> of \<open>FolderData\<close> carry a prefix, since a record field
  is a constant of the theory.
\<close>

record ImageFile =
  image_id :: string
  name :: string
  handle :: "nat option"
  nativeFile :: "nat option"

record FolderData =
  folder_id :: string
  folder_name :: string
  files :: "ImageFile list"
  rect :: Rect
  folder_handle :: "nat option"
  isExpanded :: bool

section \<open>Listing the images of a folder (utils/fileSystem)\<close>

text \<open>
  Strings are lists of bytes. \<open>toLowerCase\<close> is modelled on the ASCII letters; other
  bytes are left as they are.
\<close>

definition toLowerChar :: "char \<Rightarrow> char" where
  "toLowerChar c =
     (if 65 \<le> (of_char c :: nat) \<and> (of_char c :: nat) \<le> 90
      then char_of ((of_char c :: nat) + 32) else c)"





text \<open>
  \<open>a.localeCompare(b, undefined, { numeric: true, sensitivity: 'base' })\<close> is answered
  by the collator of the platform, not by code of this repository. It is modelled for
  names of printable ASCII characters (codes 32 to 126) under the root collation, which
  the English locales use unchanged; for any other name the model gives no answer
  (\<open>None\<close>). With sensitivity \<open>base\<close> two strings are compared by their sequences of
  primary weights, the first difference deciding and a proper prefix sorting first.
  A letter has the same weight in either case and letters are in alphabetical order.
  With \<open>numeric\<close> a maximal run of decimal digits is one weight, the number it denotes.
  Punctuation and symbols are not ignored; they sort before numbers, and numbers before
  letters. Among themselves they are in the order of \<open>punctuationOrder\<close>, which lists
  their codes: space, then
  \<^verbatim>\<open>_ - , ; : ! ? . ' " ( ) [ ] { } @ * / \ & # % ` ^ + < = > | ~ $\<close>.
  A weight is a pair of a class (0 punctuation or symbol, 1 number, 2 letter) and a
  value. The answer is -1, 0 or 1; only its sign matters to the sort.
\<close>

definition isDigit :: "char \<Rightarrow> bool" where
  "isDigit c \<longleftrightarrow> 48 \<le> (of_char c :: nat) \<and> (of_char c :: nat) \<le> 57"

definition punctuationOrder :: "nat list" where
  "punctuationOrder =
     [32, 95, 45, 44, 59, 58, 33, 63, 46, 39, 34, 40, 41, 91, 93, 123, 125, 64, 42, 47, 92,
      38, 35, 37, 96, 94, 43, 60, 61, 62, 124, 126, 36]"

fun indexOf :: "nat \<Rightarrow> nat list \<Rightarrow> nat option" where
  "indexOf n [] = None"
| "indexOf n (m # ms) = (if n = m then Some 0 else map_option Suc (indexOf n ms))"

definition primaryWeight :: "char \<Rightarrow> (nat \<times> nat) option" where
  "primaryWeight c =
     (let l = (of_char (toLowerChar c) :: nat)
      in if 97 \<le> l \<and> l \<le> 122 then Some (2, l)
         else map_option (\<lambda>i. (0, i)) (indexOf l punctuationOrder))"

definition flushRun :: "nat option \<Rightarrow> (nat \<times> nat) list" where
  "flushRun run = (case run of None \<Rightarrow> [] | Some n \<Rightarrow> [(1, n)])"

fun collationKey :: "nat option \<Rightarrow> string \<Rightarrow> (nat \<times> nat) list option" where
  "collationKey run [] = Some (flushRun run)"
| "collationKey run (c # cs) =
     (if isDigit c
      then collationKey (Some (10 * (case run of None \<Rightarrow> 0 | Some n \<Rightarrow> n)
                               + ((of_char c :: nat) - 48))) cs
      else (case primaryWeight c of
              None \<Rightarrow> None
            | Some w \<Rightarrow> map_option (\<lambda>k. flushRun run @ w # k) (collationKey None cs)))"

definition weightLess :: "nat \<times> nat \<Rightarrow> nat \<times> nat \<Rightarrow> bool" where
  "weightLess a b \<longleftrightarrow> fst a < fst b \<or> (fst a = fst b \<and> snd a < snd b)"

fun compareKeys :: "(nat \<times> nat) list \<Rightarrow> (nat \<times> nat) list \<Rightarrow> int" where
  "compareKeys [] [] = 0"
| "compareKeys [] (b # bs) = -1"
| "compareKeys (a # as) [] = 1"
| "compareKeys (a # as) (b # bs) =
     (if weightLess a b then -1
      else if weightLess b a then 1
      else compareKeys as bs)"

definition localeCompare :: "string \<Rightarrow> string \<Rightarrow> int option" where
  "localeCompare a b =
     (case collationKey None a of
        None \<Rightarrow> None
      | Some ka \<Rightarrow> map_option (compareKeys ka) (collationKey None b))"

text \<open>
  \<open>Array.prototype.sort\<close> with a comparator is stable: elements that compare equal
  keep their order. It is modelled as the insertion sort that inserts from the right.
\<close>

fun insertSorted :: "('a \<Rightarrow> 'a \<Rightarrow> int) \<Rightarrow> 'a \<Rightarrow> 'a list \<Rightarrow> 'a list" where
  "insertSorted cmp v [] = [v]"
| "insertSorted cmp v (w # ws) =
     (if cmp v w \<le> 0 then v # w # ws else w # insertSorted cmp v ws)"

definition sortArray :: "('a \<Rightarrow> 'a \<Rightarrow> int) \<Rightarrow> 'a list \<Rightarrow> 'a list" where
  "sortArray cmp vs = foldr (insertSorted cmp) vs []"


definition compareNames :: "string \<Rightarrow> string \<Rightarrow> int" where
  "compareNames a b = (case localeCompare a b of None \<Rightarrow> 0 | Some v \<Rightarrow> v)"













section \<open>The browser as seen by the export (src/App.tsx)\<close>

text \<open>
  What the platform answers to the calls of \<open>handleExport\<close>: the answer of
  \<open>window.confirm\<close>, whether \<open>canvas.getContext('2d')\<close> yields a context, the \<open>File\<close>
  behind a handle (\<open>None\<close>: \<open>getFile\<close> rejects), the width and height of the decoded
  bitmap of a file (\<open>None\<close>: \<open>createImageBitmap\<close> throws), and whether \<open>canvas.toBlob\<close>
  hands a blob to its callback for the given file and region (\<open>False\<close>: it hands
  \<open>null\<close>).
\<close>

record Browser =
  confirm :: bool
  getContext :: bool
  getFile :: "nat \<Rightarrow> nat option"
  createImageBitmap :: "nat \<Rightarrow> (nat \<times> nat) option"
  toBlob :: "nat \<Rightarrow> Rect \<Rightarrow> bool"

datatype js_error = GetFileRejected | NoImageSource | DecodeFailed

text \<open>
  The value of \<open>JSON.stringify\<close> is kept as the JSON value it prints (the indentation
  is not modelled). The properties of an object are listed in insertion order.
\<close>

datatype json = JNumber real | JObject "(string \<times> json) list"

text \<open>
  A blob is either the encoding of the canvas, which holds the given region of the
  bitmap of a file, with the MIME type and quality passed to \<open>toBlob\<close>, or a text blob
  with its content and type.
\<close>

datatype blob =
  CanvasBlob nat Rect string real
  | JsonBlob json string

text \<open>The observable effects of the export, in the order in which they happen.\<close>

datatype event =
  SetStatusMsg string
  | SetIsProcessing bool
  | SetProgress "(nat \<times> nat) option"
  | ConsoleError string
  | Download blob string
  | Delay nat

record export_state =
  exportedMetadata :: "(string \<times> Rect) list"
  trace :: "event list"

definition emit :: "event \<Rightarrow> export_state \<Rightarrow> export_state" where
  "emit e st = st\<lparr>trace := trace st @ [e]\<rparr>"

text \<open>
  \<open>entry.handle ? await entry.handle.getFile() : entry.nativeFile!\<close> followed by
  \<open>createImageBitmap(file)\<close>; an undefined \<open>nativeFile\<close> makes \<open>createImageBitmap\<close> throw.
\<close>

definition load_bitmap :: "Browser \<Rightarrow> ImageFile \<Rightarrow> js_error + (nat \<times> nat \<times> nat)" where
  "load_bitmap B entry =
     (case (case handle entry of
              Some h \<Rightarrow> (case getFile B h of None \<Rightarrow> Inl GetFileRejected | Some f \<Rightarrow> Inr f)
            | None \<Rightarrow> (case nativeFile entry of None \<Rightarrow> Inl NoImageSource | Some f \<Rightarrow> Inr f)) of
        Inl err \<Rightarrow> Inl err
      | Inr file \<Rightarrow>
          (case createImageBitmap B file of
             None \<Rightarrow> Inl DecodeFailed
           | Some (bw, bh) \<Rightarrow> Inr (file, bw, bh)))"

text \<open>
  The body of the \<open>for\<close> loop for the entry at index \<open>i\<close>: the status message, the
  \<open>try\<close> block with its \<open>catch\<close>, and the progress update after it. The assignment
  \<open>exportedMetadata[entry.name] = activeRect\<close> replaces the value of an existing
  property in place and appends a new property otherwise (the names of listed images
  end in an image extension, so none is an array index or \<open>__proto__\<close>). The bitmap
  dimensions are natural numbers. \<open>triggerDownload(blob, filename)\<close> is the effect
  \<open>Download\<close>; the pause of every third iteration is the effect \<open>Delay\<close>.
\<close>

definition process_entry ::
  "Browser \<Rightarrow> Rect \<Rightarrow> nat \<Rightarrow> nat \<Rightarrow> ImageFile \<Rightarrow> export_state \<Rightarrow> export_state" where
  "process_entry B r len i entry st =
     (let st1 = emit (SetStatusMsg (''Processing: '' @ name entry)) st;
          st2 =
            (case load_bitmap B entry of
               Inl err \<Rightarrow> emit (ConsoleError (''Failed to process '' @ name entry)) st1
             | Inr (file, bw, bh) \<Rightarrow>
                 (let activeRect = clampRectToImage r (real bw) (real bh);
                      st3 = st1\<lparr>exportedMetadata :=
                               AList.update (name entry) activeRect (exportedMetadata st1)\<rparr>;
                      st4 = (if toBlob B file activeRect
                             then emit (Download (CanvasBlob file activeRect ''image/jpeg'' 0.9)
                                          (name entry)) st3
                             else st3)
                  in if i mod 3 = 0 then emit (Delay 150) st4 else st4))
      in emit (SetProgress (Some (i + 1, len))) st2)"

text \<open>The loop \<open>for (let i = 0; i < files.length; i++)\<close> over the entries from index \<open>i\<close> on.\<close>

fun export_loop ::
  "Browser \<Rightarrow> Rect \<Rightarrow> nat \<Rightarrow> nat \<Rightarrow> ImageFile list \<Rightarrow> export_state \<Rightarrow> export_state" where
  "export_loop B r len i [] st = st"
| "export_loop B r len i (entry # rest) st =
     export_loop B r len (Suc i) rest (process_entry B r len i entry st)"

definition rect_json :: "Rect \<Rightarrow> json" where
  "rect_json r =
     JObject [(''x'', JNumber (x r)), (''y'', JNumber (y r)),
              (''width'', JNumber (width r)), (''height'', JNumber (height r))]"

definition metadata_json :: "(string \<times> Rect) list \<Rightarrow> json" where
  "metadata_json m = JObject (map (\<lambda>(k, r). (k, rect_json r)) m)"

text \<open>
  \<open>handleExport\<close>: the two early returns, the set-up, the loop inside the outer
  \<open>try\<close> (left at once when no canvas context is available), the download of
  \<open>crops.json\<close>, and the \<open>finally\<close> block. The result is the trace of effects.
\<close>

definition handleExport :: "Browser \<Rightarrow> FolderData list \<Rightarrow> string option \<Rightarrow> event list" where
  "handleExport B folders activeFolderId =
     (case find (\<lambda>f. Some (folder_id f) = activeFolderId) folders of
        None \<Rightarrow> [SetStatusMsg ''Nothing to export.'']
      | Some targetFolder \<Rightarrow>
          if length (files targetFolder) = 0 then [SetStatusMsg ''Nothing to export.'']
          else if length (files targetFolder) > 5 \<and> \<not> confirm B then []
          else
            [SetIsProcessing True,
             SetProgress (Some (0, length (files targetFolder))),
             SetStatusMsg ''Starting batch download...'']
            @ (if \<not> getContext B
               then [ConsoleError ''Export error:'',
                     SetStatusMsg ''Error: Canvas initialization failed.'']
               else
                 (let st = export_loop B (rect targetFolder) (length (files targetFolder)) 0
                             (files targetFolder) \<lparr>exportedMetadata = [], trace = []\<rparr>
                  in trace st
                     @ [Download (JsonBlob (metadata_json (exportedMetadata st))
                                    ''application/json'') ''crops.json'',
                        SetStatusMsg ''Batch download complete.'']))
            @ [SetIsProcessing False, SetProgress None])"

text \<open>Readers of a trace: the downloads and the progress updates, in order.\<close>

fun downloads :: "event list \<Rightarrow> (blob \<times> string) list" where
  "downloads [] = []"
| "downloads (Download b n # evs) = (b, n) # downloads evs"
| "downloads (_ # evs) = downloads evs"

fun progress_updates :: "event list \<Rightarrow> (nat \<times> nat) option list" where
  "progress_updates [] = []"
| "progress_updates (SetProgress p # evs) = p # progress_updates evs"
| "progress_updates (_ # evs) = progress_updates evs"

section \<open>Notions used to state the properties of the export\<close>

text \<open>
  The effects of one loop iteration taken alone, and the metadata object that
  \<open>handleExport\<close> holds when the loop has finished.
\<close>

definition entry_trace :: "Browser \<Rightarrow> Rect \<Rightarrow> nat \<Rightarrow> nat \<Rightarrow> ImageFile \<Rightarrow> event list" where
  "entry_trace B r len i entry =
     trace (process_entry B r len i entry \<lparr>exportedMetadata = [], trace = []\<rparr>)"

definition final_metadata :: "Browser \<Rightarrow> FolderData \<Rightarrow> (string \<times> Rect) list" where
  "final_metadata B F =
     exportedMetadata (export_loop B (rect F) (length (files F)) 0 (files F)
                         \<lparr>exportedMetadata = [], trace = []\<rparr>)"

text \<open>
  An entry decodes when its file is obtained and \<open>createImageBitmap\<close> returns a
  bitmap; it is processed successfully when, in addition, \<open>toBlob\<close> hands over a blob.
\<close>

definition decodes :: "Browser \<Rightarrow> ImageFile \<Rightarrow> bool" where
  "decodes B entry = (case load_bitmap B entry of Inl err \<Rightarrow> False | Inr b \<Rightarrow> True)"

definition processes_ok :: "Browser \<Rightarrow> Rect \<Rightarrow> ImageFile \<Rightarrow> bool" where
  "processes_ok B r entry =
     (case load_bitmap B entry of
        Inl err \<Rightarrow> False
      | Inr (file, bw, bh) \<Rightarrow> toBlob B file (clampRectToImage r (real bw) (real bh)))"

text \<open>
  The export goes ahead: the active folder exists and has files, the user has agreed
  to the download of more than five files, and the canvas context is available.
\<close>

definition export_proceeds :: "Browser \<Rightarrow> FolderData list \<Rightarrow> string option \<Rightarrow> FolderData \<Rightarrow> bool" where
  "export_proceeds B folders activeFolderId F \<longleftrightarrow>
     find (\<lambda>f. Some (folder_id f) = activeFolderId) folders = Some F
     \<and> files F \<noteq> [] \<and> (length (files F) \<le> 5 \<or> confirm B) \<and> getContext B"

fun json_entries :: "json \<Rightarrow> (string \<times> json) list" where
  "json_entries (JObject kvs) = kvs"
| "json_entries (JNumber v) = []"

section \<open>Example inputs\<close>

text \<open>
  A folder picked through the directory picker: three images, of which the second
  cannot be decoded; the bitmaps are 100 by 50 and 300 by 50.
\<close>

definition demo_browser :: Browser where
  "demo_browser =
     \<lparr>confirm = False, getContext = True, getFile = (\<lambda>h. Some h),
      createImageBitmap = (\<lambda>f. if f = 2 then None else Some (100 * f, 50)),
      toBlob = (\<lambda>f a. True)\<rparr>"

definition demo_a :: ImageFile where
  "demo_a = \<lparr>image_id = ''a.png'', name = ''a.png'', handle = Some 1, nativeFile = None\<rparr>"

definition demo_b :: ImageFile where
  "demo_b = \<lparr>image_id = ''b.png'', name = ''b.png'', handle = Some 2, nativeFile = None\<rparr>"

definition demo_c :: ImageFile where
  "demo_c = \<lparr>image_id = ''c.png'', name = ''c.png'', handle = Some 3, nativeFile = None\<rparr>"

definition demo_folder :: FolderData where
  "demo_folder =
     \<lparr>folder_id = ''f1'', folder_name = ''pics'', files = [demo_a, demo_b, demo_c],
      rect = \<lparr>x = 80, y = 10, width = 60, height = 60\<rparr>,
      folder_handle = Some 0, isExpanded = True\<rparr>"

text \<open>
  Folders imported through the fallback file input, which lists the files of the
  chosen directory and of its subdirectories by their bare names: two different
  images called IMG_001.jpg, one 1000 by 1000 and one 400 by 400, and an undecodable
  third file.
\<close>

definition nested_browser :: Browser where
  "nested_browser =
     \<lparr>confirm = False, getContext = True, getFile = (\<lambda>h. None),
      createImageBitmap =
        (\<lambda>f. if f = 3 then None else if f = 2 then Some (400, 400) else Some (1000, 1000)),
      toBlob = (\<lambda>f a. True)\<rparr>"

definition nested_1 :: ImageFile where
  "nested_1 = \<lparr>image_id = ''k3x9q2m1z'', name = ''IMG_001.jpg'', handle = None, nativeFile = Some 1\<rparr>"

definition nested_2 :: ImageFile where
  "nested_2 = \<lparr>image_id = ''p7c4w8n5b'', name = ''IMG_001.jpg'', handle = None, nativeFile = Some 2\<rparr>"

definition nested_3 :: ImageFile where
  "nested_3 = \<lparr>image_id = ''t2v6r1y8d'', name = ''IMG_002.jpg'', handle = None, nativeFile = Some 3\<rparr>"

definition nested_folder :: FolderData where
  "nested_folder =
     \<lparr>folder_id = ''g5h2j7k4l'', folder_name = ''Imported Folder'',
      files = [nested_1, nested_2, nested_3],
      rect = \<lparr>x = 250, y = 250, width = 500, height = 500\<rparr>,
      folder_handle = None, isExpanded = True\<rparr>"

definition mixed_folder :: FolderData where
  "mixed_folder =
     \<lparr>folder_id = ''m1n8b3v6c'', folder_name = ''Imported Folder'',
      files = [nested_1, nested_2],
      rect = \<lparr>x = 250, y = 250, width = 500, height = 500\<rparr>,
      folder_handle = None, isExpanded = True\<rparr>"

section \<open>Properties of the clamp\<close>

lemma clamp_fields:
  "x (clampRectToImage r iw ih) = max 0 (min (x r) (iw - min (width r) iw))"
  "y (clampRectToImage r iw ih) = max 0 (min (y r) (ih - min (height r) ih))"
  "width (clampRectToImage r iw ih) = max 1 (min (width r) iw)"
  "height (clampRectToImage r iw ih) = max 1 (min (height r) ih)"
  by (simp_all add: clampRectToImage_def Let_def)

lemma clamp_nonneg_min_size:
  "0 \<le> x (clampRectToImage r iw ih)"
  "0 \<le> y (clampRectToImage r iw ih)"
  "1 \<le> width (clampRectToImage r iw ih)"
  "1 \<le> height (clampRectToImage r iw ih)"
  by (simp_all add: clamp_fields)

lemma axis_fits:
  fixes p s d :: real
  assumes "1 \<le> s" "1 \<le> d"
  shows "max 0 (min p (d - min s d)) + max 1 (min s d) \<le> d"
proof -
  define m where "m = min s d"
  have m: "1 \<le> m" "m \<le> d" using assms by (simp_all add: m_def)
  have "max 1 m = m" using m by simp
  moreover have "max 0 (min p (d - m)) \<le> d - m" using m by simp
  ultimately show ?thesis unfolding m_def by simp
qed

lemma axis_idem_size:
  fixes s d :: real
  assumes "1 \<le> s"
  shows "max 1 (min (max 1 (min s d)) d) = max 1 (min s d)"
proof (cases "1 \<le> d")
  case True
  then have "max 1 (min s d) \<le> d" using assms by simp
  then show ?thesis by simp
next
  case False
  then show ?thesis by simp
qed

lemma axis_idem_pos:
  fixes p s d :: real
  assumes "1 \<le> s"
  shows "max 0 (min (max 0 (min p (d - min s d))) (d - min (max 1 (min s d)) d))
         = max 0 (min p (d - min s d))"
proof (cases "1 \<le> d")
  case True
  define m where "m = min s d"
  have m: "1 \<le> m" "m \<le> d" using assms True by (simp_all add: m_def)
  have "min (max 1 m) d = m" using m by simp
  moreover have "max 0 (min p (d - m)) \<le> d - m" using m by simp
  ultimately show ?thesis unfolding m_def by simp
next
  case False
  then have "min s d = d" "min (max 1 (min s d)) d = d" using assms by simp_all
  then show ?thesis by simp
qed

lemma axis_cap_into:
  fixes p s d :: real
  shows "cap_into 0 (d - min s d) p = max 0 (min p (d - min s d))"
proof -
  have "0 \<le> d - min s d" by simp
  then show ?thesis unfolding cap_into_def by (simp add: max_def min_def)
qed

lemma clamp_fits_x:
  assumes "1 \<le> width r" "1 \<le> iw"
  shows "x (clampRectToImage r iw ih) + width (clampRectToImage r iw ih) \<le> iw"
  unfolding clamp_fields using assms by (rule axis_fits)

lemma clamp_fits_y:
  assumes "1 \<le> height r" "1 \<le> ih"
  shows "y (clampRectToImage r iw ih) + height (clampRectToImage r iw ih) \<le> ih"
  unfolding clamp_fields using assms by (rule axis_fits)

lemma clamp_within:
  assumes "1 \<le> width r" "1 \<le> height r" "1 \<le> iw" "1 \<le> ih"
  shows "rect_within (clampRectToImage r iw ih) iw ih"
  unfolding rect_within_def
  using clamp_nonneg_min_size [of r iw ih] clamp_fits_x [OF assms(1,3), of ih]
    clamp_fits_y [OF assms(2,4), of iw]
  by blast

lemma raise_to_one:
  fixes v :: real
  shows "(if v < 1 then 1 else v) = max 1 v"
  by (simp add: max_def)

lemma clamp_idem:
  assumes "1 \<le> width r" "1 \<le> height r"
  shows "clampRectToImage (clampRectToImage r iw ih) iw ih = clampRectToImage r iw ih"
proof -
  let ?c = "clampRectToImage r iw ih"
  have "x (clampRectToImage ?c iw ih) = x ?c"
    unfolding clamp_fields using assms(1) by (rule axis_idem_pos)
  moreover have "y (clampRectToImage ?c iw ih) = y ?c"
    unfolding clamp_fields using assms(2) by (rule axis_idem_pos)
  moreover have "width (clampRectToImage ?c iw ih) = width ?c"
    unfolding clamp_fields using assms(1) by (rule axis_idem_size)
  moreover have "height (clampRectToImage ?c iw ih) = height ?c"
    unfolding clamp_fields using assms(2) by (rule axis_idem_size)
  ultimately show ?thesis
    by (simp add: Rect.equality)
qed

lemma axis_fits_iff:
  fixes p s d :: real
  assumes "1 \<le> d"
  shows "max 0 (min p (d - min s d)) + max 1 (min s d) \<le> d \<longleftrightarrow> 1 \<le> s \<or> p \<le> d - 1"
proof (cases "1 \<le> s")
  case True
  then show ?thesis using axis_fits [OF True assms] by simp
next
  case False
  then have m: "min s d = s" "max 1 s = 1" using assms by simp_all
  have "max 0 (min p (d - s)) \<le> d - 1 \<longleftrightarrow> p \<le> d - 1"
  proof
    assume a: "max 0 (min p (d - s)) \<le> d - 1"
    then have "min p (d - s) \<le> d - 1" by simp
    moreover have "d - 1 < d - s" using False by simp
    ultimately show "p \<le> d - 1" by (simp add: min_def split: if_splits)
  next
    assume "p \<le> d - 1"
    then have "min p (d - s) \<le> d - 1" by simp
    then show "max 0 (min p (d - s)) \<le> d - 1" using assms by simp
  qed
  then show ?thesis
    unfolding m using False by auto
qed

lemma axis_idem_pos_iff:
  fixes p s d :: real
  assumes "1 \<le> d"
  shows "max 0 (min (max 0 (min p (d - min s d))) (d - min (max 1 (min s d)) d))
           = max 0 (min p (d - min s d)) \<longleftrightarrow> 1 \<le> s \<or> p \<le> d - 1"
proof (cases "1 \<le> s")
  case True
  then show ?thesis using axis_idem_pos [OF True] by simp
next
  case False
  then have m: "min s d = s" "max 1 s = 1" "min 1 d = 1" using assms by simp_all
  define q where "q = max 0 (min p (d - s))"
  have q0: "0 \<le> q" by (simp add: q_def)
  have "max 0 (min q (d - 1)) = q \<longleftrightarrow> q \<le> d - 1"
    using q0 assms by (auto simp: min_def max_def)
  moreover have "q \<le> d - 1 \<longleftrightarrow> p \<le> d - 1"
  proof
    assume "q \<le> d - 1"
    then have "min p (d - s) \<le> d - 1" by (simp add: q_def)
    moreover have "d - 1 < d - s" using False by simp
    ultimately show "p \<le> d - 1" by (simp add: min_def split: if_splits)
  next
    assume "p \<le> d - 1"
    then have "min p (d - s) \<le> d - 1" by simp
    then show "q \<le> d - 1" using assms by (simp add: q_def)
  qed
  ultimately show ?thesis
    unfolding m q_def [symmetric] using False by simp
qed

lemma axis_idem_size_any:
  fixes s d :: real
  assumes "1 \<le> d"
  shows "max 1 (min (max 1 (min s d)) d) = max 1 (min s d)"
proof -
  have "max 1 (min s d) \<le> d" using assms by simp
  then show ?thesis by simp
qed

lemma clamp_within_iff:
  assumes "1 \<le> iw" "1 \<le> ih"
  shows "rect_within (clampRectToImage r iw ih) iw ih \<longleftrightarrow>
           (1 \<le> width r \<or> x r \<le> iw - 1) \<and> (1 \<le> height r \<or> y r \<le> ih - 1)"
  unfolding rect_within_def
  using clamp_nonneg_min_size [of r iw ih]
  by (simp add: clamp_fields axis_fits_iff [OF assms(1)] axis_fits_iff [OF assms(2)]
      del: max.bounded_iff min.bounded_iff)

lemma clamp_idem_iff:
  assumes "1 \<le> iw" "1 \<le> ih"
  shows "clampRectToImage (clampRectToImage r iw ih) iw ih = clampRectToImage r iw ih \<longleftrightarrow>
           (1 \<le> width r \<or> x r \<le> iw - 1) \<and> (1 \<le> height r \<or> y r \<le> ih - 1)"
proof -
  let ?c = "clampRectToImage r iw ih"
  have w: "width (clampRectToImage ?c iw ih) = width ?c"
    unfolding clamp_fields using assms(1) by (rule axis_idem_size_any)
  have h: "height (clampRectToImage ?c iw ih) = height ?c"
    unfolding clamp_fields using assms(2) by (rule axis_idem_size_any)
  have px: "x (clampRectToImage ?c iw ih) = x ?c \<longleftrightarrow> 1 \<le> width r \<or> x r \<le> iw - 1"
    unfolding clamp_fields using assms(1) by (rule axis_idem_pos_iff)
  have py: "y (clampRectToImage ?c iw ih) = y ?c \<longleftrightarrow> 1 \<le> height r \<or> y r \<le> ih - 1"
    unfolding clamp_fields using assms(2) by (rule axis_idem_pos_iff)
  have "clampRectToImage ?c iw ih = ?c \<longleftrightarrow>
          x (clampRectToImage ?c iw ih) = x ?c \<and> y (clampRectToImage ?c iw ih) = y ?c"
    using w h by (auto intro: Rect.equality)
  then show ?thesis
    unfolding px py .
qed

lemma handleManualSubmit_within:
  assumes "1 \<le> iw" "1 \<le> ih" "handleManualSubmit r w h iw ih = Some c"
  shows "rect_within c iw ih"
proof -
  from assms(3) obtain wv hv where
    "c = clampRectToImage (r\<lparr>width := max 1 (of_int wv), height := max 1 (of_int hv)\<rparr>) iw ih"
    by (auto simp: handleManualSubmit_def split: option.splits)
  then show ?thesis
    using assms(1,2) by (simp add: clamp_within)
qed

text \<open>
  C1. The claim: for every input rectangle and all positive image dimensions, the
  rectangle returned by \<open>clampRectToImage\<close> satisfies \<open>0 \<le> x\<close>, \<open>0 \<le> y\<close>,
  \<open>x + width \<le> imgWidth\<close>, \<open>y + height \<le> imgHeight\<close>, \<open>width \<ge> 1\<close>, \<open>height \<ge> 1\<close>.
  The source does not meet it. Dragging the north-west handle of the box at (5, 0) of
  size 5 by 3, flush with the right border of a 10 by 10 image, by 4.7 to the right
  hands \<open>clampRectToImage\<close> the rectangle at (9.7, 0) of size 0.3 by 3. The position is
  capped against the width 0.3, the width is raised to 1 afterwards, and the result
  ends at 10.7. The empty rectangle at (10, 10) is returned at (10, 10) with size 1
  by 1 and ends at 11. By \<open>clamp_within_iff\<close> the result lies within the image exactly
  when, on each axis, the input size is at least 1 or the input position is at most
  the dimension minus 1; \<open>handleManualSubmit\<close>, which raises the size to 1 before it
  clamps, always stays inside (\<open>handleManualSubmit_within\<close>).
\<close>

theorem clampRectToImage_out_of_bounds:
  "handlePointerMove (Some NW) \<lparr>x = 5, y = 0, width = 5, height = 3\<rparr> 4.7 0 10 10
     = Some (clampRectToImage \<lparr>x = 9.7, y = 0, width = 0.3, height = 3\<rparr> 10 10)
   \<and> clampRectToImage \<lparr>x = 9.7, y = 0, width = 0.3, height = 3\<rparr> 10 10
     = \<lparr>x = 9.7, y = 0, width = 1, height = 3\<rparr>
   \<and> x (clampRectToImage \<lparr>x = 9.7, y = 0, width = 0.3, height = 3\<rparr> 10 10)
       + width (clampRectToImage \<lparr>x = 9.7, y = 0, width = 0.3, height = 3\<rparr> 10 10) = 10.7
   \<and> \<not> rect_within (clampRectToImage \<lparr>x = 9.7, y = 0, width = 0.3, height = 3\<rparr> 10 10) 10 10
   \<and> clampRectToImage \<lparr>x = 10, y = 10, width = 0, height = 0\<rparr> 10 10
     = \<lparr>x = 10, y = 10, width = 1, height = 1\<rparr>
   \<and> \<not> rect_within (clampRectToImage \<lparr>x = 10, y = 10, width = 0, height = 0\<rparr> 10 10) 10 10"
  by (simp add: handlePointerMove_def includesW_def includesE_def includesN_def includesS_def
      clampRectToImage_def rect_within_def)

text \<open>
  C2. The claim: for every rectangle and all positive image dimensions, clamping is
  idempotent. The source does not meet it, by the same order of steps: the rectangle
  at (9.7, 0) of size 0.3 by 3 is clamped on a 10 by 10 image to x = 9.7 with width 1,
  and clamping that result again moves it to x = 9. Likewise the rectangle of width 0
  at x = 5 on a 5 by 5 image goes to x = 5 and then to x = 4. By \<open>clamp_idem_iff\<close>
  a second clamp changes nothing exactly when, on each axis, the input size is at
  least 1 or the input position is at most the dimension minus 1.
\<close>

theorem clampRectToImage_not_idempotent:
  "clampRectToImage \<lparr>x = 9.7, y = 0, width = 0.3, height = 3\<rparr> 10 10
     = \<lparr>x = 9.7, y = 0, width = 1, height = 3\<rparr>
   \<and> clampRectToImage (clampRectToImage \<lparr>x = 9.7, y = 0, width = 0.3, height = 3\<rparr> 10 10) 10 10
     = \<lparr>x = 9, y = 0, width = 1, height = 3\<rparr>
   \<and> clampRectToImage (clampRectToImage \<lparr>x = 9.7, y = 0, width = 0.3, height = 3\<rparr> 10 10) 10 10
     \<noteq> clampRectToImage \<lparr>x = 9.7, y = 0, width = 0.3, height = 3\<rparr> 10 10
   \<and> clampRectToImage \<lparr>x = 5, y = 0, width = 0, height = 3\<rparr> 5 5
     = \<lparr>x = 5, y = 0, width = 1, height = 3\<rparr>
   \<and> clampRectToImage (clampRectToImage \<lparr>x = 5, y = 0, width = 0, height = 3\<rparr> 5 5) 5 5
     = \<lparr>x = 4, y = 0, width = 1, height = 3\<rparr>"
  by (simp add: clampRectToImage_def)

text \<open>
  C5. \<open>clampRectToImage\<close> equals the three-stage reference definition: cap the size
  to the image, cap the position into the interval from 0 to the dimension minus the
  capped size, raise the size to at least 1.
\<close>

theorem clampRectToImage_three_stage:
  "clampRectToImage r iw ih = clamp_three_stage r iw ih"
proof -
  have "x (clamp_three_stage r iw ih) = x (clampRectToImage r iw ih)"
    by (simp add: clamp_three_stage_def spec_stage_floor_def spec_stage_position_def
        spec_stage_size_def clamp_fields axis_cap_into)
  moreover have "y (clamp_three_stage r iw ih) = y (clampRectToImage r iw ih)"
    by (simp add: clamp_three_stage_def spec_stage_floor_def spec_stage_position_def
        spec_stage_size_def clamp_fields axis_cap_into)
  moreover have "width (clamp_three_stage r iw ih) = width (clampRectToImage r iw ih)"
    unfolding clamp_three_stage_def spec_stage_floor_def spec_stage_position_def
      spec_stage_size_def clamp_fields raise_to_one by simp
  moreover have "height (clamp_three_stage r iw ih) = height (clampRectToImage r iw ih)"
    unfolding clamp_three_stage_def spec_stage_floor_def spec_stage_position_def
      spec_stage_size_def clamp_fields raise_to_one by simp
  moreover have "Rect.more (clamp_three_stage r iw ih) = Rect.more (clampRectToImage r iw ih)"
    by simp
  ultimately show ?thesis
    by (simp add: Rect.equality)
qed

lemma floor_quarter: "\<lfloor>real_of_int k * 0.25\<rfloor> = k div 4"
proof -
  have "real_of_int k * 0.25 = real_of_int k / real_of_int 4"
    by simp
  then show ?thesis
    by (simp only: floor_divide_of_int_eq)
qed

lemma floor_half: "\<lfloor>real_of_int k * 0.5\<rfloor> = k div 2"
proof -
  have "real_of_int k * 0.5 = real_of_int k / real_of_int 2"
    by simp
  then show ?thesis
    by (simp only: floor_divide_of_int_eq)
qed

text \<open>
  C6. \<open>defaultRect\<close> returns x = floor(imgWidth * 0.25), y = floor(imgHeight * 0.25),
  width = floor(imgWidth * 0.5), height = floor(imgHeight * 0.5), for all image
  dimensions. For integer dimensions W and H these are W div 4, H div 4, W div 2 and
  H div 2, and for a 1000 by 1000 image the result is the rectangle at (250, 250) of
  size 500 by 500.
\<close>

theorem defaultRect_value:
  "defaultRect iw ih
     = \<lparr>x = of_int \<lfloor>iw * 0.25\<rfloor>, y = of_int \<lfloor>ih * 0.25\<rfloor>,
        width = of_int \<lfloor>iw * 0.5\<rfloor>, height = of_int \<lfloor>ih * 0.5\<rfloor>\<rparr>
   \<and> defaultRect (of_int W) (of_int H)
     = \<lparr>x = of_int (W div 4), y = of_int (H div 4),
        width = of_int (W div 2), height = of_int (H div 2)\<rparr>
   \<and> defaultRect 1000 1000 = \<lparr>x = 250, y = 250, width = 500, height = 500\<rparr>"
proof -
  have "defaultRect (of_int W) (of_int H)
     = \<lparr>x = of_int (W div 4), y = of_int (H div 4),
        width = of_int (W div 2), height = of_int (H div 2)\<rparr>"
    unfolding defaultRect_def floor_quarter floor_half ..
  moreover have "defaultRect 1000 1000 = \<lparr>x = 250, y = 250, width = 500, height = 500\<rparr>"
    by (simp add: defaultRect_def)
  ultimately show ?thesis
    by (simp add: defaultRect_def)
qed

text \<open>
  C10. For every input rectangle whose width and height are at least 1 and all image
  dimensions that are at least 1 (the positive integers among them), the clamped
  rectangle satisfies \<open>0 \<le> x\<close>, \<open>0 \<le> y\<close>, \<open>x + width \<le> imgWidth\<close>,
  \<open>y + height \<le> imgHeight\<close>, \<open>width \<ge> 1\<close>, \<open>height \<ge> 1\<close>, and clamping it again
  returns it unchanged.
\<close>

theorem clampRectToImage_contract:
  assumes "1 \<le> width r" and "1 \<le> height r" and "1 \<le> iw" and "1 \<le> ih"
  shows "rect_within (clampRectToImage r iw ih) iw ih
         \<and> clampRectToImage (clampRectToImage r iw ih) iw ih = clampRectToImage r iw ih"
  using assms by (simp add: clamp_within clamp_idem)

theorem clampRectToImage_contract_witness:
  "(1::real) \<le> width \<lparr>x = 90, y = 7.5, width = 20.5, height = 3\<rparr>
   \<and> (1::real) \<le> height \<lparr>x = 90, y = 7.5, width = 20.5, height = 3\<rparr>
   \<and> (1::real) \<le> of_int 100 \<and> (1::real) \<le> of_int 10
   \<and> rect_within (clampRectToImage \<lparr>x = 90, y = 7.5, width = 20.5, height = 3\<rparr> 100 10) 100 10
   \<and> clampRectToImage \<lparr>x = 90, y = 7.5, width = 20.5, height = 3\<rparr> 100 10
       = \<lparr>x = 79.5, y = 7, width = 20.5, height = 3\<rparr>
   \<and> clampRectToImage (clampRectToImage \<lparr>x = 90, y = 7.5, width = 20.5, height = 3\<rparr> 100 10) 100 10
       = \<lparr>x = 79.5, y = 7, width = 20.5, height = 3\<rparr>"
  using clampRectToImage_contract [of "\<lparr>x = 90, y = 7.5, width = 20.5, height = 3\<rparr>" 100 10]
  by (simp add: clampRectToImage_def)

section \<open>Properties of the file listing\<close>










































lemmas collation_eval = localeCompare_def primaryWeight_def toLowerChar_def isDigit_def
  punctuationOrder_def flushRun_def weightLess_def compareNames_def



lemma example_sort:
  "sortArray compareNames [''img10.png'', ''img2.png'', ''IMG1.png'']
   = [''IMG1.png'', ''img2.png'', ''img10.png'']"
  by (simp add: sortArray_def collation_eval)




lemma more_examples:
  "localeCompare ''photo_1.jpg'' ''photo.jpg'' = Some (-1)"
  "localeCompare ''IMG1.png'' ''img1.png'' = Some 0"
  "localeCompare ''img2.png'' ''img10.png'' = Some (-1)"
  "localeCompare ''a.png'' ''B.png'' = Some (-1)"
  by (simp_all add: collation_eval)



section \<open>Properties of the export\<close>

lemma downloads_append: "downloads (es @ fs) = downloads es @ downloads fs"
  by (induction es rule: downloads.induct) simp_all

lemma progress_updates_append:
  "progress_updates (es @ fs) = progress_updates es @ progress_updates fs"
  by (induction es rule: progress_updates.induct) simp_all

lemma process_entry_trace:
  "trace (process_entry B r len i e st) = trace st @ entry_trace B r len i e"
  by (simp add: entry_trace_def process_entry_def emit_def Let_def split: sum.split prod.split)

lemma process_entry_metadata:
  "exportedMetadata (process_entry B r len i e st) =
     (case load_bitmap B e of
        Inl err \<Rightarrow> exportedMetadata st
      | Inr (file, bw, bh) \<Rightarrow>
          AList.update (name e) (clampRectToImage r (real bw) (real bh)) (exportedMetadata st))"
  by (simp add: process_entry_def emit_def Let_def split: sum.split prod.split)

lemma entry_trace_downloads:
  "downloads (entry_trace B r len i e) =
     (case load_bitmap B e of
        Inl err \<Rightarrow> []
      | Inr (file, bw, bh) \<Rightarrow>
          if toBlob B file (clampRectToImage r (real bw) (real bh))
          then [(CanvasBlob file (clampRectToImage r (real bw) (real bh)) ''image/jpeg'' (9 / 10),
                 name e)]
          else [])"
  by (simp add: entry_trace_def process_entry_def emit_def Let_def split: sum.split prod.split)

lemma entry_trace_progress:
  "progress_updates (entry_trace B r len i e) = [Some (Suc i, len)]"
  by (simp add: entry_trace_def process_entry_def emit_def Let_def split: sum.split prod.split)

lemma entry_trace_last:
  "last (entry_trace B r len i e) = SetProgress (Some (Suc i, len))"
  by (simp add: entry_trace_def process_entry_def emit_def Let_def)

lemma export_loop_trace:
  "trace (export_loop B r len i es st) =
     trace st @ concat (map (\<lambda>(j, e). entry_trace B r len j e) (enumerate i es))"
  by (induction es arbitrary: i st) (simp_all add: process_entry_trace)

lemma export_loop_append:
  "export_loop B r len i (es @ fs) st =
     export_loop B r len (i + length es) fs (export_loop B r len i es st)"
  by (induction es arbitrary: i st) simp_all

lemma export_loop_keys:
  "fst ` set (exportedMetadata (export_loop B r len i es st)) =
     fst ` set (exportedMetadata st) \<union> name ` {e \<in> set es. decodes B e}"
proof (induction es arbitrary: i st)
  case Nil
  then show ?case by simp
next
  case (Cons e es)
  have step: "fst ` set (exportedMetadata (process_entry B r len i e st)) =
      fst ` set (exportedMetadata st) \<union> (if decodes B e then {name e} else {})"
    by (auto simp: process_entry_metadata decodes_def AList.dom_update split: sum.split)
  show ?case
    unfolding export_loop.simps Cons.IH step by auto
qed

lemma export_loop_distinct:
  "distinct (map fst (exportedMetadata st)) \<Longrightarrow>
   distinct (map fst (exportedMetadata (export_loop B r len i es st)))"
proof (induction es arbitrary: i st)
  case Nil
  then show ?case by simp
next
  case (Cons e es)
  have "distinct (map fst (exportedMetadata (process_entry B r len i e st)))"
    using Cons.prems
    by (auto simp: process_entry_metadata AList.distinct_update split: sum.split)
  then show ?case
    unfolding export_loop.simps by (rule Cons.IH)
qed

lemma export_loop_keeps:
  assumes "\<forall>e \<in> set es. decodes B e \<longrightarrow> name e \<noteq> k"
  shows "map_of (exportedMetadata (export_loop B r len i es st)) k
         = map_of (exportedMetadata st) k"
  using assms
proof (induction es arbitrary: i st)
  case Nil
  then show ?case by simp
next
  case (Cons e es)
  have "map_of (exportedMetadata (process_entry B r len i e st)) k
        = map_of (exportedMetadata st) k"
    using Cons.prems
    by (auto simp: process_entry_metadata decodes_def AList.update_conv' split: sum.split)
  moreover have "map_of (exportedMetadata (export_loop B r len (Suc i) es
                    (process_entry B r len i e st))) k
        = map_of (exportedMetadata (process_entry B r len i e st)) k"
    using Cons.prems by (intro Cons.IH) simp
  ultimately show ?case by simp
qed

lemma export_loop_records:
  assumes "load_bitmap B e = Inr (file, bw, bh)"
  shows "map_of (exportedMetadata (export_loop B r len i (pre @ [e]) st)) (name e)
         = Some (clampRectToImage r (real bw) (real bh))"
  using assms
  by (simp add: export_loop_append process_entry_metadata AList.update_conv')

lemma handleExport_proceeds:
  assumes "export_proceeds B folders aid F"
  shows "handleExport B folders aid =
     [SetIsProcessing True, SetProgress (Some (0, length (files F))),
      SetStatusMsg ''Starting batch download...'']
     @ concat (map (\<lambda>(j, e). entry_trace B (rect F) (length (files F)) j e)
                 (enumerate 0 (files F)))
     @ [Download (JsonBlob (metadata_json (final_metadata B F)) ''application/json'')
          ''crops.json'',
        SetStatusMsg ''Batch download complete.'',
        SetIsProcessing False, SetProgress None]"
proof -
  have f: "find (\<lambda>f. Some (folder_id f) = aid) folders = Some F"
    and ne: "length (files F) \<noteq> 0"
    and go: "\<not> (5 < length (files F) \<and> \<not> confirm B)"
    and ctx: "getContext B"
    using assms by (auto simp: export_proceeds_def)
  show ?thesis
    unfolding handleExport_def f option.case
    using ne go ctx
    by (simp add: Let_def export_loop_trace final_metadata_def)
qed

lemma downloads_loop:
  "downloads (concat (map (\<lambda>(j, e). entry_trace B r len j e) (enumerate i es))) =
     concat (map (\<lambda>e. downloads (entry_trace B r len 0 e)) es)"
proof (induction es arbitrary: i)
  case Nil
  then show ?case by simp
next
  case (Cons e es)
  have "downloads (entry_trace B r len i e) = downloads (entry_trace B r len 0 e)"
    by (simp add: entry_trace_downloads)
  then show ?case
    by (simp add: downloads_append Cons.IH)
qed

lemma progress_loop:
  "progress_updates (concat (map (\<lambda>(j, e). entry_trace B r len j e) (enumerate i es))) =
     map (\<lambda>j. Some (Suc j, len)) [i..<i + length es]"
proof (induction es arbitrary: i)
  case Nil
  then show ?case by simp
next
  case (Cons e es)
  have "[i..<i + length (e # es)] = i # [Suc i..<Suc i + length es]"
    using upt_conv_Cons [of i "i + length (e # es)"] by simp
  then show ?case
    by (simp add: progress_updates_append entry_trace_progress Cons.IH del: upt_Suc)
qed

lemma entry_downloads_ok:
  "processes_ok B r e \<Longrightarrow>
   \<exists>file a. downloads (entry_trace B r len i e) = [(CanvasBlob file a ''image/jpeg'' (9 / 10), name e)]"
  by (auto simp: processes_ok_def entry_trace_downloads split: sum.splits)

lemma entry_downloads_not_ok:
  "\<not> processes_ok B r e \<Longrightarrow> downloads (entry_trace B r len i e) = []"
  by (auto simp: processes_ok_def entry_trace_downloads split: sum.splits)

lemma crops_names:
  "map snd (concat (map (\<lambda>e. downloads (entry_trace B r len 0 e)) es)) =
     map name (filter (processes_ok B r) es)"
proof (induction es)
  case Nil
  then show ?case by simp
next
  case (Cons e es)
  show ?case
  proof (cases "processes_ok B r e")
    case True
    from entry_downloads_ok [OF True, of len 0] obtain fl a where
      "downloads (entry_trace B r len 0 e) = [(CanvasBlob fl a ''image/jpeg'' (9 / 10), name e)]"
      by blast
    with True Cons.IH show ?thesis by simp
  next
    case False
    with entry_downloads_not_ok [OF False, of len 0] Cons.IH show ?thesis by simp
  qed
qed

lemma crops_jpeg:
  "d \<in> set (concat (map (\<lambda>e. downloads (entry_trace B r len 0 e)) es)) \<Longrightarrow>
   \<exists>file a. fst d = CanvasBlob file a ''image/jpeg'' (9 / 10)"
  by (auto simp: entry_trace_downloads split: sum.splits if_splits)

lemma handleExport_downloads:
  assumes "export_proceeds B folders aid F"
  shows "downloads (handleExport B folders aid) =
     concat (map (\<lambda>e. downloads (entry_trace B (rect F) (length (files F)) 0 e)) (files F))
     @ [(JsonBlob (metadata_json (final_metadata B F)) ''application/json'', ''crops.json'')]"
  unfolding handleExport_proceeds [OF assms]
  by (simp add: downloads_append downloads_loop)

lemma final_metadata_keys:
  "fst ` set (final_metadata B F) = name ` {e \<in> set (files F). decodes B e}"
  unfolding final_metadata_def export_loop_keys by simp

lemma final_metadata_distinct: "distinct (map fst (final_metadata B F))"
  unfolding final_metadata_def by (rule export_loop_distinct) simp

lemma processes_ok_decodes: "processes_ok B r e \<Longrightarrow> decodes B e"
  by (auto simp: processes_ok_def decodes_def split: sum.splits)

lemma failed_entry_logged:
  assumes "load_bitmap B e = Inl err"
  shows "ConsoleError (''Failed to process '' @ name e) \<in> set (entry_trace B r len i e)"
  using assms by (simp add: entry_trace_def process_entry_def emit_def Let_def)

lemma enumerate_mid:
  "(length pre + i, e) \<in> set (enumerate i (pre @ e # post))"
  by (simp add: enumerate_append_eq)

lemma json_entries_keys: "map fst (json_entries (metadata_json m)) = map fst m"
  by (simp add: metadata_json_def case_prod_beta comp_def)

lemma json_entries_length: "length (json_entries (metadata_json m)) = length m"
  by (simp add: metadata_json_def)

lemma not_decoded_not_ok: "load_bitmap B e = Inl err \<Longrightarrow> \<not> processes_ok B r e"
  by (simp add: processes_ok_def)

lemma not_decoded_not_decodes: "load_bitmap B e = Inl err \<Longrightarrow> \<not> decodes B e"
  by (simp add: decodes_def)

lemma failure_in_trace:
  assumes "export_proceeds B folders aid F"
    and "files F = pre @ bad # post"
    and "load_bitmap B bad = Inl err"
  shows "ConsoleError (''Failed to process '' @ name bad) \<in> set (handleExport B folders aid)"
proof -
  have "(length pre + 0, bad) \<in> set (enumerate 0 (files F))"
    unfolding assms(2) by (rule enumerate_mid)
  moreover have "ConsoleError (''Failed to process '' @ name bad)
      \<in> set (entry_trace B (rect F) (length (files F)) (length pre + 0) bad)"
    using assms(3) by (rule failed_entry_logged)
  ultimately have "ConsoleError (''Failed to process '' @ name bad)
      \<in> set (concat (map (\<lambda>(j, e). entry_trace B (rect F) (length (files F)) j e)
                 (enumerate 0 (files F))))"
    by force
  then show ?thesis
    unfolding handleExport_proceeds [OF assms(1)] by simp
qed

lemmas demo_defs = demo_browser_def demo_folder_def demo_a_def demo_b_def demo_c_def

text \<open>
  C3 (as amended). When the export of a folder of N files goes ahead and exactly one
  file fails to decode while the other N-1 files are processed successfully, then N-1
  cropped files are downloaded, under the names of those N-1 files and in their order,
  followed by crops.json; the failure is logged, the file is skipped and the batch runs
  to completion. crops.json has one entry per distinct filename among the N-1 files:
  exactly N-1 entries when those filenames are pairwise distinct.
\<close>

theorem handleExport_skips_undecodable:
  assumes "export_proceeds B folders aid F"
    and "files F = pre @ bad # post"
    and "load_bitmap B bad = Inl DecodeFailed"
    and "\<forall>e \<in> set (pre @ post). processes_ok B (rect F) e"
  shows "map snd (butlast (downloads (handleExport B folders aid))) = map name (pre @ post)
       \<and> length (butlast (downloads (handleExport B folders aid))) = length (files F) - 1
       \<and> last (downloads (handleExport B folders aid))
           = (JsonBlob (metadata_json (final_metadata B F)) ''application/json'', ''crops.json'')
       \<and> fst ` set (json_entries (metadata_json (final_metadata B F))) = name ` set (pre @ post)
       \<and> distinct (map fst (json_entries (metadata_json (final_metadata B F))))
       \<and> (distinct (map name (pre @ post)) \<longrightarrow>
            length (json_entries (metadata_json (final_metadata B F))) = length (files F) - 1)
       \<and> ConsoleError (''Failed to process '' @ name bad) \<in> set (handleExport B folders aid)
       \<and> SetStatusMsg ''Batch download complete.'' \<in> set (handleExport B folders aid)"
proof -
  let ?evs = "handleExport B folders aid"
  let ?M = "final_metadata B F"
  have good: "\<And>e. e \<in> set (pre @ post) \<Longrightarrow> processes_ok B (rect F) e"
    using assms(4) by blast
  have bad: "\<not> processes_ok B (rect F) bad" "\<not> decodes B bad"
    using assms(3) by (simp_all add: not_decoded_not_ok not_decoded_not_decodes)
  have sel: "filter (processes_ok B (rect F)) (files F) = pre @ post"
    unfolding assms(2) using good bad(1) by simp
  have d: "downloads ?evs =
      concat (map (\<lambda>e. downloads (entry_trace B (rect F) (length (files F)) 0 e)) (files F))
      @ [(JsonBlob (metadata_json ?M) ''application/json'', ''crops.json'')]"
    by (rule handleExport_downloads [OF assms(1)])
  have names: "map snd (butlast (downloads ?evs)) = map name (pre @ post)"
    unfolding d butlast_snoc crops_names sel ..
  have "length (butlast (downloads ?evs)) = length (map snd (butlast (downloads ?evs)))"
    by simp
  also have "\<dots> = length (files F) - 1"
    unfolding names assms(2) by simp
  finally have count: "length (butlast (downloads ?evs)) = length (files F) - 1" .
  have final: "last (downloads ?evs) = (JsonBlob (metadata_json ?M) ''application/json'', ''crops.json'')"
    unfolding d by simp
  have "{e \<in> set (files F). decodes B e} = set (pre @ post)"
    unfolding assms(2) using good bad(2) by (auto dest: processes_ok_decodes)
  then have keys: "fst ` set ?M = name ` set (pre @ post)"
    by (simp add: final_metadata_keys)
  have jkeys: "fst ` set (json_entries (metadata_json ?M)) = name ` set (pre @ post)"
    using keys json_entries_keys [of ?M] by (metis set_map)
  have jdist: "distinct (map fst (json_entries (metadata_json ?M)))"
    unfolding json_entries_keys by (rule final_metadata_distinct)
  have jlen: "length (json_entries (metadata_json ?M)) = length (files F) - 1"
    if dn: "distinct (map name (pre @ post))"
  proof -
    have "length ?M = card (fst ` set ?M)"
      using final_metadata_distinct [of B F] by (metis distinct_card length_map set_map)
    also have "\<dots> = card (set (map name (pre @ post)))"
      unfolding keys by (simp only: set_map)
    also have "\<dots> = length (map name (pre @ post))"
      using dn by (rule distinct_card)
    also have "\<dots> = length (files F) - 1"
      unfolding assms(2) by simp
    finally show ?thesis
      by (simp add: json_entries_length)
  qed
  have logged: "ConsoleError (''Failed to process '' @ name bad) \<in> set ?evs"
    by (rule failure_in_trace [OF assms(1,2,3)])
  have complete: "SetStatusMsg ''Batch download complete.'' \<in> set ?evs"
    unfolding handleExport_proceeds [OF assms(1)] by simp
  show ?thesis
    using names count final jkeys jdist jlen logged complete by blast
qed

theorem handleExport_skips_undecodable_witness:
  "export_proceeds demo_browser [demo_folder] (Some ''f1'') demo_folder
   \<and> files demo_folder = [demo_a] @ demo_b # [demo_c]
   \<and> load_bitmap demo_browser demo_b = Inl DecodeFailed
   \<and> processes_ok demo_browser (rect demo_folder) demo_a
   \<and> processes_ok demo_browser (rect demo_folder) demo_c
   \<and> distinct (map name ([demo_a] @ [demo_c]))
   \<and> map snd (butlast (downloads (handleExport demo_browser [demo_folder] (Some ''f1''))))
       = [''a.png'', ''c.png'']
   \<and> length (json_entries (metadata_json (final_metadata demo_browser demo_folder))) = 2
   \<and> ConsoleError ''Failed to process b.png''
       \<in> set (handleExport demo_browser [demo_folder] (Some ''f1''))"
proof -
  have p: "export_proceeds demo_browser [demo_folder] (Some ''f1'') demo_folder"
    by (simp add: export_proceeds_def demo_defs)
  have f: "files demo_folder = [demo_a] @ demo_b # [demo_c]"
    by (simp add: demo_folder_def)
  have b: "load_bitmap demo_browser demo_b = Inl DecodeFailed"
    by (simp add: load_bitmap_def demo_browser_def demo_b_def)
  have g: "\<forall>e \<in> set ([demo_a] @ [demo_c]). processes_ok demo_browser (rect demo_folder) e"
    by (simp add: processes_ok_def load_bitmap_def demo_defs)
  have n: "distinct (map name ([demo_a] @ [demo_c]))"
    by (simp add: demo_a_def demo_c_def)
  have l: "length (files demo_folder) - 1 = 2" "name demo_b = ''b.png''"
    "map name ([demo_a] @ [demo_c]) = [''a.png'', ''c.png'']"
    by (simp_all add: demo_defs)
  note t = handleExport_skips_undecodable [OF p f b g]
  have "map snd (butlast (downloads (handleExport demo_browser [demo_folder] (Some ''f1''))))
       = [''a.png'', ''c.png'']"
    using t [THEN conjunct1] unfolding l .
  moreover have "length (json_entries (metadata_json (final_metadata demo_browser demo_folder))) = 2"
    using t n unfolding l by blast
  moreover have "ConsoleError ''Failed to process b.png''
       \<in> set (handleExport demo_browser [demo_folder] (Some ''f1''))"
    using t unfolding l by simp
  moreover have "processes_ok demo_browser (rect demo_folder) demo_a"
    "processes_ok demo_browser (rect demo_folder) demo_c"
    using g by simp_all
  ultimately show ?thesis
    using p f b n by blast
qed

text \<open>
  C3 as stated fails when two processed files share a filename: of three files, two
  called IMG_001.jpg and an undecodable one, two crops are downloaded, and crops.json
  has one entry instead of two.
\<close>

theorem handleExport_skips_undecodable_counterexample:
  "export_proceeds nested_browser [nested_folder] (Some ''g5h2j7k4l'') nested_folder
   \<and> files nested_folder = [nested_1, nested_2, nested_3]
   \<and> processes_ok nested_browser (rect nested_folder) nested_1
   \<and> processes_ok nested_browser (rect nested_folder) nested_2
   \<and> load_bitmap nested_browser nested_3 = Inl DecodeFailed
   \<and> downloads (handleExport nested_browser [nested_folder] (Some ''g5h2j7k4l''))
       = [(CanvasBlob 1 \<lparr>x = 250, y = 250, width = 500, height = 500\<rparr> ''image/jpeg'' (9 / 10),
           ''IMG_001.jpg''),
          (CanvasBlob 2 \<lparr>x = 0, y = 0, width = 400, height = 400\<rparr> ''image/jpeg'' (9 / 10),
           ''IMG_001.jpg''),
          (JsonBlob (JObject
             [(''IMG_001.jpg'', JObject [(''x'', JNumber 0), (''y'', JNumber 0),
                                        (''width'', JNumber 400), (''height'', JNumber 400)])])
             ''application/json'',
           ''crops.json'')]
   \<and> length (json_entries (metadata_json (final_metadata nested_browser nested_folder)))
       \<noteq> length (files nested_folder) - 1"
proof -
  have "export_proceeds nested_browser [nested_folder] (Some ''g5h2j7k4l'') nested_folder"
    by (simp add: export_proceeds_def
        nested_browser_def nested_folder_def nested_1_def nested_2_def nested_3_def)
  moreover have "files nested_folder = [nested_1, nested_2, nested_3]"
    by (simp add: nested_folder_def)
  moreover have "processes_ok nested_browser (rect nested_folder) nested_1"
    "processes_ok nested_browser (rect nested_folder) nested_2"
    by (simp_all add: processes_ok_def load_bitmap_def
        nested_browser_def nested_folder_def nested_1_def nested_2_def nested_3_def)
  moreover have "load_bitmap nested_browser nested_3 = Inl DecodeFailed"
    by (simp add: load_bitmap_def nested_browser_def nested_3_def)
  moreover have "downloads (handleExport nested_browser [nested_folder] (Some ''g5h2j7k4l''))
       = [(CanvasBlob 1 \<lparr>x = 250, y = 250, width = 500, height = 500\<rparr> ''image/jpeg'' (9 / 10),
           ''IMG_001.jpg''),
          (CanvasBlob 2 \<lparr>x = 0, y = 0, width = 400, height = 400\<rparr> ''image/jpeg'' (9 / 10),
           ''IMG_001.jpg''),
          (JsonBlob (JObject
             [(''IMG_001.jpg'', JObject [(''x'', JNumber 0), (''y'', JNumber 0),
                                        (''width'', JNumber 400), (''height'', JNumber 400)])])
             ''application/json'',
           ''crops.json'')]"
    by (simp add: handleExport_def process_entry_def load_bitmap_def emit_def
        clampRectToImage_def metadata_json_def rect_json_def Let_def
        nested_browser_def nested_folder_def nested_1_def nested_2_def nested_3_def)
  moreover have "length (json_entries (metadata_json (final_metadata nested_browser nested_folder)))
       \<noteq> length (files nested_folder) - 1"
    by (simp add: final_metadata_def process_entry_def load_bitmap_def emit_def
        clampRectToImage_def metadata_json_def rect_json_def Let_def
        nested_browser_def nested_folder_def nested_1_def nested_2_def nested_3_def)
  ultimately show ?thesis
    by blast
qed

text \<open>
  C4 (as amended). For every image that is successfully decoded during export, the
  rectangle recorded under its filename when the image is processed equals
  \<open>clampRectToImage\<close> applied to the folder's rectangle and that image's width and
  height. It is the value under that filename in crops.json when no later decoded
  image of the folder has the same filename. Every value of crops.json is an object
  with exactly the fields x, y, width, height.
\<close>

theorem handleExport_metadata_rect:
  assumes "export_proceeds B folders aid F"
    and "files F = pre @ e # post"
    and "load_bitmap B e = Inr (fl, bw, bh)"
  shows "map_of (exportedMetadata
                  (export_loop B (rect F) (length (files F)) 0 (pre @ [e])
                     \<lparr>exportedMetadata = [], trace = []\<rparr>)) (name e)
           = Some (clampRectToImage (rect F) (real bw) (real bh))
       \<and> ((\<forall>e' \<in> set post. decodes B e' \<longrightarrow> name e' \<noteq> name e) \<longrightarrow>
            map_of (final_metadata B F) (name e)
              = Some (clampRectToImage (rect F) (real bw) (real bh)))
       \<and> last (downloads (handleExport B folders aid))
           = (JsonBlob (JObject (map (\<lambda>(k, a).
                  (k, JObject [(''x'', JNumber (x a)), (''y'', JNumber (y a)),
                               (''width'', JNumber (width a)), (''height'', JNumber (height a))]))
                (final_metadata B F))) ''application/json'', ''crops.json'')"
proof -
  let ?init = "\<lparr>exportedMetadata = [], trace = []\<rparr>"
  let ?T = "length (files F)"
  have step: "map_of (exportedMetadata (export_loop B (rect F) ?T 0 (pre @ [e]) ?init)) (name e)
           = Some (clampRectToImage (rect F) (real bw) (real bh))"
    using assms(3) by (rule export_loop_records)
  have "export_loop B (rect F) n 0 (files F) ?init =
      export_loop B (rect F) n (0 + length (pre @ [e])) post
        (export_loop B (rect F) n 0 (pre @ [e]) ?init)" for n
    unfolding assms(2) using export_loop_append [of B "rect F" n 0 "pre @ [e]" post ?init]
    by simp
  then have split: "final_metadata B F =
      exportedMetadata (export_loop B (rect F) ?T (0 + length (pre @ [e])) post
        (export_loop B (rect F) ?T 0 (pre @ [e]) ?init))"
    unfolding final_metadata_def by simp
  have final: "map_of (final_metadata B F) (name e)
              = Some (clampRectToImage (rect F) (real bw) (real bh))"
    if "\<forall>e' \<in> set post. decodes B e' \<longrightarrow> name e' \<noteq> name e"
    unfolding split export_loop_keeps [OF that] by (rule step)
  have json: "last (downloads (handleExport B folders aid))
           = (JsonBlob (JObject (map (\<lambda>(k, a).
                  (k, JObject [(''x'', JNumber (x a)), (''y'', JNumber (y a)),
                               (''width'', JNumber (width a)), (''height'', JNumber (height a))]))
                (final_metadata B F))) ''application/json'', ''crops.json'')"
    unfolding handleExport_downloads [OF assms(1)]
    by (simp add: metadata_json_def rect_json_def)
  show ?thesis
    using step final json by blast
qed

theorem handleExport_metadata_rect_witness:
  "export_proceeds demo_browser [demo_folder] (Some ''f1'') demo_folder
   \<and> files demo_folder = [] @ demo_a # [demo_b, demo_c]
   \<and> load_bitmap demo_browser demo_a = Inr (1, 100, 50)
   \<and> \<not> decodes demo_browser demo_b \<and> name demo_c \<noteq> name demo_a
   \<and> map_of (final_metadata demo_browser demo_folder) ''a.png''
       = Some \<lparr>x = 40, y = 0, width = 60, height = 50\<rparr>"
proof -
  have p: "export_proceeds demo_browser [demo_folder] (Some ''f1'') demo_folder"
    by (simp add: export_proceeds_def demo_defs)
  have f: "files demo_folder = [] @ demo_a # [demo_b, demo_c]"
    by (simp add: demo_folder_def)
  have b: "load_bitmap demo_browser demo_a = Inr (1, 100, 50)"
    by (simp add: load_bitmap_def demo_browser_def demo_a_def)
  have o': "\<not> decodes demo_browser demo_b" "name demo_c \<noteq> name demo_a"
    by (simp_all add: decodes_def load_bitmap_def demo_browser_def demo_a_def demo_b_def
        demo_c_def)
  then have o: "\<forall>e' \<in> set [demo_b, demo_c]. decodes demo_browser e' \<longrightarrow> name e' \<noteq> name demo_a"
    by simp
  have c: "clampRectToImage (rect demo_folder) (real 100) (real 50)
           = \<lparr>x = 40, y = 0, width = 60, height = 50\<rparr>" "name demo_a = ''a.png''"
    by (simp_all add: clampRectToImage_def demo_folder_def demo_a_def)
  have "map_of (final_metadata demo_browser demo_folder) ''a.png''
       = Some \<lparr>x = 40, y = 0, width = 60, height = 50\<rparr>"
    using handleExport_metadata_rect [OF p f b, THEN conjunct2, THEN conjunct1] o
    unfolding c by blast
  then show ?thesis
    using p f b o' by blast
qed

text \<open>
  C4 as stated fails for the first of two decoded images with the same filename:
  the rectangle of the second image, clamped to 400 by 400, replaces the one of the
  first, clamped to 1000 by 1000, under the key IMG_001.jpg.
\<close>

theorem handleExport_metadata_rect_counterexample:
  "export_proceeds nested_browser [mixed_folder] (Some ''m1n8b3v6c'') mixed_folder
   \<and> files mixed_folder = [nested_1, nested_2]
   \<and> load_bitmap nested_browser nested_1 = Inr (1, 1000, 1000)
   \<and> load_bitmap nested_browser nested_2 = Inr (2, 400, 400)
   \<and> clampRectToImage (rect mixed_folder) 1000 1000
       = \<lparr>x = 250, y = 250, width = 500, height = 500\<rparr>
   \<and> last (downloads (handleExport nested_browser [mixed_folder] (Some ''m1n8b3v6c'')))
       = (JsonBlob (JObject
             [(''IMG_001.jpg'', JObject [(''x'', JNumber 0), (''y'', JNumber 0),
                                        (''width'', JNumber 400), (''height'', JNumber 400)])])
             ''application/json'',
          ''crops.json'')
   \<and> map_of (final_metadata nested_browser mixed_folder) (name nested_1)
       \<noteq> Some (clampRectToImage (rect mixed_folder) 1000 1000)"
proof -
  have "export_proceeds nested_browser [mixed_folder] (Some ''m1n8b3v6c'') mixed_folder"
    by (simp add: export_proceeds_def mixed_folder_def nested_browser_def nested_1_def nested_2_def)
  moreover have "files mixed_folder = [nested_1, nested_2]"
    by (simp add: mixed_folder_def)
  moreover have "load_bitmap nested_browser nested_1 = Inr (1, 1000, 1000)"
    "load_bitmap nested_browser nested_2 = Inr (2, 400, 400)"
    by (simp_all add: load_bitmap_def nested_browser_def nested_1_def nested_2_def)
  moreover have "clampRectToImage (rect mixed_folder) 1000 1000
       = \<lparr>x = 250, y = 250, width = 500, height = 500\<rparr>"
    by (simp add: clampRectToImage_def mixed_folder_def)
  moreover have "last (downloads (handleExport nested_browser [mixed_folder] (Some ''m1n8b3v6c'')))
       = (JsonBlob (JObject
             [(''IMG_001.jpg'', JObject [(''x'', JNumber 0), (''y'', JNumber 0),
                                        (''width'', JNumber 400), (''height'', JNumber 400)])])
             ''application/json'',
          ''crops.json'')"
    by (simp add: handleExport_def process_entry_def load_bitmap_def emit_def
        clampRectToImage_def metadata_json_def rect_json_def Let_def
        mixed_folder_def nested_browser_def nested_1_def nested_2_def)
  moreover have "map_of (final_metadata nested_browser mixed_folder) (name nested_1)
       \<noteq> Some (clampRectToImage (rect mixed_folder) 1000 1000)"
    by (simp add: final_metadata_def process_entry_def load_bitmap_def emit_def
        clampRectToImage_def Let_def
        mixed_folder_def nested_browser_def nested_1_def nested_2_def)
  ultimately show ?thesis
    by blast
qed

text \<open>
  C7. When the export of a folder with T files goes ahead, its effects are the
  set-up, the loop iterations in order, and the completion; the iteration of the file
  at index i (the (i+1)-th file) updates the progress exactly once, as its last effect,
  to current = i+1 and total = T, whether or not the file was processed successfully.
  The progress updates of the whole export are 0/T, then 1/T up to T/T, then the
  reset to null.
\<close>

theorem handleExport_progress:
  assumes "export_proceeds B folders aid F"
  shows "handleExport B folders aid =
           [SetIsProcessing True, SetProgress (Some (0, length (files F))),
            SetStatusMsg ''Starting batch download...'']
           @ concat (map (\<lambda>(i, e). entry_trace B (rect F) (length (files F)) i e)
                       (enumerate 0 (files F)))
           @ [Download (JsonBlob (metadata_json (final_metadata B F)) ''application/json'')
                ''crops.json'',
              SetStatusMsg ''Batch download complete.'',
              SetIsProcessing False, SetProgress None]
         \<and> (\<forall>i < length (files F).
               progress_updates (entry_trace B (rect F) (length (files F)) i (files F ! i))
                 = [Some (i + 1, length (files F))]
               \<and> last (entry_trace B (rect F) (length (files F)) i (files F ! i))
                 = SetProgress (Some (i + 1, length (files F))))
         \<and> progress_updates (handleExport B folders aid) =
             Some (0, length (files F))
             # map (\<lambda>i. Some (i, length (files F))) [1..<Suc (length (files F))] @ [None]"
proof -
  let ?T = "length (files F)"
  have "map (\<lambda>j. Some (Suc j, ?T)) [0..<?T] = map ((\<lambda>i. Some (i, ?T)) \<circ> Suc) [0..<?T]"
    by (simp add: comp_def)
  also have "\<dots> = map (\<lambda>i. Some (i, ?T)) (map Suc [0..<?T])"
    by simp
  also have "\<dots> = map (\<lambda>i. Some (i, ?T)) [1..<Suc ?T]"
    by (simp only: map_Suc_upt One_nat_def)
  finally have seq: "map (\<lambda>j. Some (Suc j, ?T)) [0..<?T] = map (\<lambda>i. Some (i, ?T)) [1..<Suc ?T]" .
  have "progress_updates (handleExport B folders aid) =
          Some (0, ?T) # map (\<lambda>j. Some (Suc j, ?T)) [0..<0 + ?T] @ [None]"
    unfolding handleExport_proceeds [OF assms]
    by (simp add: progress_updates_append progress_loop del: upt_Suc)
  then have "progress_updates (handleExport B folders aid) =
          Some (0, ?T) # map (\<lambda>i. Some (i, ?T)) [1..<Suc ?T] @ [None]"
    using seq by simp
  then show ?thesis
    using handleExport_proceeds [OF assms]
    by (simp add: entry_trace_progress entry_trace_last del: upt_Suc)
qed

theorem handleExport_progress_witness:
  "export_proceeds demo_browser [demo_folder] (Some ''f1'') demo_folder
   \<and> progress_updates (handleExport demo_browser [demo_folder] (Some ''f1''))
       = [Some (0, 3), Some (1, 3), Some (2, 3), Some (3, 3), None]
   \<and> last (entry_trace demo_browser (rect demo_folder) 3 1 demo_b) = SetProgress (Some (2, 3))"
proof -
  have p: "export_proceeds demo_browser [demo_folder] (Some ''f1'') demo_folder"
    by (simp add: export_proceeds_def demo_defs)
  have u: "[1..<Suc 3] = [1, 2, 3]"
    by (simp add: upt_rec)
  have f: "files demo_folder ! 1 = demo_b" "length (files demo_folder) = 3"
    by (simp_all add: demo_folder_def)
  note t = handleExport_progress [OF p]
  have "progress_updates (handleExport demo_browser [demo_folder] (Some ''f1''))
       = Some (0, 3) # map (\<lambda>i. Some (i, 3)) [1..<Suc 3] @ [None]"
    using t [THEN conjunct2, THEN conjunct2] unfolding f .
  moreover have "last (entry_trace demo_browser (rect demo_folder) 3 1 demo_b)
                 = SetProgress (Some (2, 3))"
    using t [THEN conjunct2, THEN conjunct1, rule_format, of 1] unfolding f by simp
  ultimately show ?thesis
    using p u by simp
qed

text \<open>
  C8. When the export goes ahead, the downloads before the last one are the cropped
  images of the successfully processed files, in order, each under exactly the name of
  its source image and each encoded as image/jpeg at quality 0.9; the last download
  is the metadata file crops.json, and it is the only one that is not a cropped
  image.
\<close>

theorem handleExport_downloads_named:
  assumes "export_proceeds B folders aid F"
  shows "map snd (butlast (downloads (handleExport B folders aid)))
           = map name (filter (processes_ok B (rect F)) (files F))
         \<and> (\<forall>d \<in> set (butlast (downloads (handleExport B folders aid))).
               \<exists>fl a. fst d = CanvasBlob fl a ''image/jpeg'' (9 / 10))
         \<and> last (downloads (handleExport B folders aid))
           = (JsonBlob (metadata_json (final_metadata B F)) ''application/json'', ''crops.json'')"
proof -
  let ?crops = "concat (map (\<lambda>e. downloads (entry_trace B (rect F) (length (files F)) 0 e))
                         (files F))"
  have d: "downloads (handleExport B folders aid) =
      ?crops @ [(JsonBlob (metadata_json (final_metadata B F)) ''application/json'', ''crops.json'')]"
    by (rule handleExport_downloads [OF assms])
  have "map snd (butlast (downloads (handleExport B folders aid)))
          = map name (filter (processes_ok B (rect F)) (files F))"
    unfolding d butlast_snoc by (rule crops_names)
  moreover have "\<forall>d \<in> set (butlast (downloads (handleExport B folders aid))).
               \<exists>fl a. fst d = CanvasBlob fl a ''image/jpeg'' (9 / 10)"
    unfolding d butlast_snoc using crops_jpeg by blast
  moreover have "last (downloads (handleExport B folders aid))
           = (JsonBlob (metadata_json (final_metadata B F)) ''application/json'', ''crops.json'')"
    unfolding d by simp
  ultimately show ?thesis by blast
qed

theorem handleExport_downloads_named_witness:
  "export_proceeds demo_browser [demo_folder] (Some ''f1'') demo_folder
   \<and> map snd (butlast (downloads (handleExport demo_browser [demo_folder] (Some ''f1''))))
       = [''a.png'', ''c.png'']
   \<and> downloads (handleExport demo_browser [demo_folder] (Some ''f1''))
       = [(CanvasBlob 1 \<lparr>x = 40, y = 0, width = 60, height = 50\<rparr> ''image/jpeg'' (9 / 10),
           ''a.png''),
          (CanvasBlob 3 \<lparr>x = 80, y = 0, width = 60, height = 50\<rparr> ''image/jpeg'' (9 / 10),
           ''c.png''),
          (JsonBlob (JObject
             [(''a.png'', JObject [(''x'', JNumber 40), (''y'', JNumber 0),
                                  (''width'', JNumber 60), (''height'', JNumber 50)]),
              (''c.png'', JObject [(''x'', JNumber 80), (''y'', JNumber 0),
                                  (''width'', JNumber 60), (''height'', JNumber 50)])])
             ''application/json'',
           ''crops.json'')]"
proof -
  have p: "export_proceeds demo_browser [demo_folder] (Some ''f1'') demo_folder"
    by (simp add: export_proceeds_def demo_defs)
  have ok: "filter (processes_ok demo_browser (rect demo_folder)) (files demo_folder)
            = [demo_a, demo_c]"
    by (simp add: processes_ok_def load_bitmap_def demo_defs)
  have "map snd (butlast (downloads (handleExport demo_browser [demo_folder] (Some ''f1''))))
       = [''a.png'', ''c.png'']"
    using handleExport_downloads_named [OF p, THEN conjunct1] unfolding ok
    by (simp add: demo_a_def demo_c_def)
  moreover have "downloads (handleExport demo_browser [demo_folder] (Some ''f1'')) =
       [(CanvasBlob 1 \<lparr>x = 40, y = 0, width = 60, height = 50\<rparr> ''image/jpeg'' (9 / 10),
           ''a.png''),
          (CanvasBlob 3 \<lparr>x = 80, y = 0, width = 60, height = 50\<rparr> ''image/jpeg'' (9 / 10),
           ''c.png''),
          (JsonBlob (JObject
             [(''a.png'', JObject [(''x'', JNumber 40), (''y'', JNumber 0),
                                  (''width'', JNumber 60), (''height'', JNumber 50)]),
              (''c.png'', JObject [(''x'', JNumber 80), (''y'', JNumber 0),
                                  (''width'', JNumber 60), (''height'', JNumber 50)])])
             ''application/json'',
           ''crops.json'')]"
    by (simp add: handleExport_def process_entry_def load_bitmap_def emit_def
        clampRectToImage_def metadata_json_def rect_json_def Let_def demo_defs)
  ultimately show ?thesis
    using p by blast
qed

end
